theory Spec2Isabelle
  imports Main
begin

section \<open>The logger's data\<close>

text \<open>
  The Go package \<^verbatim>\<open>shlog4go\<close> is one struct, \<^verbatim>\<open>SHLogger\<close>, and its methods.
  Level tables and category overrides are Go maps from strings to \<^verbatim>\<open>int\<close>. The
  code only stores and compares these integers (no arithmetic), so they are
  modelled as \<open>int\<close>. Reading a Go map at a missing key, or reading a nil map,
  gives the zero value; writing to a nil map panics. The level table is only ever
  read, so a nil table is the empty map here; the category map is written by
  \<^verbatim>\<open>SetCategory\<close>, so its nil state is kept apart (\<open>None\<close>).
\<close>

type_synonym levels = "string \<rightharpoonup> int"

definition lookup0 :: "levels \<Rightarrow> string \<Rightarrow> int" where
  "lookup0 m k = (case m k of None \<Rightarrow> 0 | Some v \<Rightarrow> v)"

text \<open>The two-result lookup \<^verbatim>\<open>v, ok := m[k]\<close> on a map that may be nil.\<close>

definition comma_ok :: "levels option \<Rightarrow> string \<Rightarrow> int option" where
  "comma_ok m k = (case m of None \<Rightarrow> None | Some f \<Rightarrow> f k)"

text \<open>
  The field \<^verbatim>\<open>out\<close> is a \<^verbatim>\<open>*os.File\<close>: \<open>None\<close> is the nil pointer, \<open>Some h\<close> the file
  object number \<open>h\<close> of the environment below. The field \<^verbatim>\<open>mutex\<close> is \<open>True\<close>
  while the lock is held.
\<close>

record SHLogger =
  filename :: string
  mutex :: bool
  prefix :: string
  timeformat :: string
  out :: "nat option"
  categories :: "levels option"
  levelmap :: levels
  deflevel :: int

section \<open>The environment: files, clock, caller\<close>

text \<open>
  What the code calls in Go's standard library is modelled as an environment.
  A file object is a path and an open flag; closing never removes the object, it
  clears the flag, and a write or a second close on a closed object is an error
  (\<^verbatim>\<open>os.ErrClosed\<close>), on a nil pointer \<^verbatim>\<open>os.ErrInvalid\<close>. Whether \<^verbatim>\<open>os.OpenFile\<close>
  succeeds is the environment's choice (\<open>unopenable\<close>). A write through an open
  object is taken to append all its bytes to the file at the object's path.
  \<open>ticks\<close> counts the readings of the clock, and \<open>trace\<close> records every call that
  leaves the logger, in order.
\<close>

datatype error = ErrInvalid | ErrClosed | PathError string

datatype event =
    EvCaller
  | EvNow
  | EvLock
  | EvUnlock
  | EvOpenFile string
  | EvClose "nat option"
  | EvWrite "nat option" string

record world =
  handles :: "(string \<times> bool) list"
  files :: "string \<rightharpoonup> string"
  unopenable :: "string set"
  ticks :: nat
  trace :: "event list"

text \<open>
  The per-call inputs: what \<^verbatim>\<open>runtime.Caller(2)\<close> and \<^verbatim>\<open>runtime.FuncForPC\<close> report
  for the call site, how the \<open>k\<close>-th clock reading prints under a layout
  (\<^verbatim>\<open>time.Now().Format(layout)\<close>), and the body formatters \<^verbatim>\<open>fmt.Sprintf\<close> and
  \<^verbatim>\<open>fmt.Sprintln\<close> over an argument type \<open>'a\<close>.
\<close>

record 'a env =
  caller_pc :: nat
  caller_file :: string
  caller_line :: int
  caller_func :: string
  time_Format :: "nat \<Rightarrow> string \<Rightarrow> string"
  fmt_Sprintf :: "string \<Rightarrow> 'a list \<Rightarrow> string"
  fmt_Sprintln :: "'a list \<Rightarrow> string"

definition is_open :: "world \<Rightarrow> nat \<Rightarrow> bool" where
  "is_open w h = (h < length (handles w) \<and> snd (handles w ! h))"

definition path_of :: "world \<Rightarrow> nat \<Rightarrow> string" where
  "path_of w h = fst (handles w ! h)"

definition os_OpenFile :: "string \<Rightarrow> world \<Rightarrow> (error + nat) \<times> world" where
  "os_OpenFile name w =
     (let w1 = w\<lparr>trace := trace w @ [EvOpenFile name]\<rparr>
      in if name \<in> unopenable w then (Inl (PathError name), w1)
         else (Inr (length (handles w)),
               w1\<lparr>handles := handles w @ [(name, True)],
                  files := (case files w name of
                              None \<Rightarrow> (files w)(name \<mapsto> [])
                            | Some old \<Rightarrow> files w)\<rparr>))"

definition File_Close :: "nat option \<Rightarrow> world \<Rightarrow> error option \<times> world" where
  "File_Close f w =
     (let w1 = w\<lparr>trace := trace w @ [EvClose f]\<rparr>
      in case f of
           None \<Rightarrow> (Some ErrInvalid, w1)
         | Some h \<Rightarrow>
             if is_open w h
             then (None, w1\<lparr>handles := (handles w)[h := (path_of w h, False)]\<rparr>)
             else (Some ErrClosed, w1))"

definition File_Write :: "nat option \<Rightarrow> string \<Rightarrow> world \<Rightarrow> (int \<times> error option) \<times> world" where
  "File_Write f b w =
     (let w1 = w\<lparr>trace := trace w @ [EvWrite f b]\<rparr>
      in case f of
           None \<Rightarrow> ((0, Some ErrInvalid), w1)
         | Some h \<Rightarrow>
             if is_open w h
             then ((int (length b), None),
                   w1\<lparr>files := (files w)(path_of w h \<mapsto>
                          (case files w (path_of w h) of
                             None \<Rightarrow> b
                           | Some old \<Rightarrow> old @ b))\<rparr>)
             else ((0, Some ErrClosed), w1))"

text \<open>
  \<^verbatim>\<open>sync.Mutex\<close>: \<^verbatim>\<open>Lock\<close> on a held mutex does not return (\<open>None\<close>).
\<close>

definition Lock :: "SHLogger \<Rightarrow> world \<Rightarrow> (SHLogger \<times> world) option" where
  "Lock log w =
     (if mutex log then None
      else Some (log\<lparr>mutex := True\<rparr>, w\<lparr>trace := trace w @ [EvLock]\<rparr>))"

definition Unlock :: "SHLogger \<Rightarrow> world \<Rightarrow> SHLogger \<times> world" where
  "Unlock log w = (log\<lparr>mutex := False\<rparr>, w\<lparr>trace := trace w @ [EvUnlock]\<rparr>)"

text \<open>Decimal printing, as \<^verbatim>\<open>fmt.Sprintf("%d", n)\<close> does for an unsigned and a signed integer.\<close>

definition digit :: "nat \<Rightarrow> char" where
  "digit d = ''0123456789'' ! d"

function utoa :: "nat \<Rightarrow> string" where
  "utoa n = (if n < 10 then [digit n] else utoa (n div 10) @ [digit (n mod 10)])"
  by pat_completeness auto
termination
  by (relation "measure (\<lambda>n. n)") auto

declare utoa.simps [simp del]

definition itoa :: "int \<Rightarrow> string" where
  "itoa i = (if i < 0 then CHR ''-'' # utoa (nat (- i)) else utoa (nat i))"

section \<open>Configuration\<close>

definition SetPrefix :: "SHLogger \<Rightarrow> string \<Rightarrow> SHLogger" where
  "SetPrefix log p = log\<lparr>prefix := p\<rparr>"

definition SetTimeFormat :: "SHLogger \<Rightarrow> string \<Rightarrow> SHLogger" where
  "SetTimeFormat log tf = log\<lparr>timeformat := tf\<rparr>"

definition SetLevelMap :: "SHLogger \<Rightarrow> levels \<Rightarrow> SHLogger" where
  "SetLevelMap log lm = log\<lparr>levelmap := lm\<rparr>"

definition SetDefaultLevel :: "SHLogger \<Rightarrow> string \<Rightarrow> SHLogger" where
  "SetDefaultLevel log level = log\<lparr>deflevel := lookup0 (levelmap log) level\<rparr>"

text \<open>
  \<^verbatim>\<open>log.categories[category] = log.levelmap[level]\<close> panics when the category map is
  nil (a logger that did not come from \<^verbatim>\<open>Open\<close>).
\<close>

datatype panic = AssignToNilMap

definition SetCategory :: "SHLogger \<Rightarrow> string \<Rightarrow> string \<Rightarrow> panic + SHLogger" where
  "SetCategory log category level =
     (case categories log of
        None \<Rightarrow> Inl AssignToNilMap
      | Some m \<Rightarrow> Inr (log\<lparr>categories := Some (m(category \<mapsto> lookup0 (levelmap log) level))\<rparr>))"

section \<open>Opening, closing, reopening\<close>

definition default_levels :: levels where
  "default_levels =
     [''OFF'' \<mapsto> 1, ''FATAL'' \<mapsto> 2, ''ERROR'' \<mapsto> 3, ''WARN'' \<mapsto> 4,
      ''INFO'' \<mapsto> 5, ''DEBUG'' \<mapsto> 6, ''ALL'' \<mapsto> 7]"

definition new_SHLogger :: SHLogger where
  "new_SHLogger =
     \<lparr>filename = [], mutex = False, prefix = [], timeformat = [], out = None,
      categories = None, levelmap = Map.empty, deflevel = 0\<rparr>"

definition Open :: "string \<Rightarrow> world \<Rightarrow> (error + SHLogger) \<times> world" where
  "Open name w =
     (case os_OpenFile name w of
        (Inl err, w1) \<Rightarrow> (Inl err, w1)
      | (Inr h, w1) \<Rightarrow>
          (let log = new_SHLogger;
               log = log\<lparr>filename := name\<rparr>;
               log = log\<lparr>out := Some h\<rparr>;
               log = log\<lparr>categories := Some Map.empty\<rparr>;
               log = SetLevelMap log default_levels;
               log = SetDefaultLevel log ''WARN''
           in (Inr log, w1)))"

definition Close :: "SHLogger \<Rightarrow> world \<Rightarrow> SHLogger \<times> world" where
  "Close log w = (log, snd (File_Close (out log) w))"

definition Reopen :: "SHLogger \<Rightarrow> world \<Rightarrow> (error option \<times> SHLogger \<times> world) option" where
  "Reopen log w =
     (case Lock log w of
        None \<Rightarrow> None
      | Some (l1, w1) \<Rightarrow>
          (case Close l1 w1 of
             (l2, w2) \<Rightarrow>
               (case os_OpenFile (filename l2) w2 of
                  (Inl err, w3) \<Rightarrow>
                    (case Unlock l2 w3 of (l4, w4) \<Rightarrow> Some (Some err, l4, w4))
                | (Inr h, w3) \<Rightarrow>
                    (case Unlock (l2\<lparr>out := Some h\<rparr>) w3 of
                       (l4, w4) \<Rightarrow> Some (None, l4, w4)))))"

section \<open>The header\<close>

text \<open>
  \<^verbatim>\<open>strings.LastIndex(filename, "/")\<close> with its one-byte separator: the scan from the
  last byte down, \<open>-1\<close> when the byte does not occur.
\<close>

fun lastIndexFrom :: "string \<Rightarrow> char \<Rightarrow> nat \<Rightarrow> int" where
  "lastIndexFrom s c 0 = - 1"
| "lastIndexFrom s c (Suc i) = (if s ! i = c then int i else lastIndexFrom s c i)"

definition strings_LastIndex :: "string \<Rightarrow> char \<Rightarrow> int" where
  "strings_LastIndex s c = lastIndexFrom s c (length s)"

definition getShortFileName :: "string \<Rightarrow> string" where
  "getShortFileName fname = drop (nat (strings_LastIndex fname CHR ''/'' + 1)) fname"

definition RFC3339 :: string where
  "RFC3339 = ''2006-01-02T15:04:05Z07:00''"

definition getTimeString :: "'a env \<Rightarrow> string \<Rightarrow> world \<Rightarrow> string \<times> world" where
  "getTimeString E tf w =
     (let now = ticks w;
          w1 = w\<lparr>ticks := Suc (ticks w), trace := trace w @ [EvNow]\<rparr>;
          tf1 = (if tf = [] then RFC3339 else tf)
      in (time_Format E now tf1, w1))"

text \<open>The \<^verbatim>\<open>switch\<close> on the directive character.\<close>

definition directive ::
  "'a env \<Rightarrow> SHLogger \<Rightarrow> string \<Rightarrow> string \<Rightarrow> char \<Rightarrow> world \<Rightarrow> string \<times> world" where
  "directive E log category level c w =
     (if c = CHR ''p'' then (utoa (caller_pc E), w)
      else if c = CHR ''F'' then (caller_file E, w)
      else if c = CHR ''f'' then (getShortFileName (caller_file E), w)
      else if c = CHR ''l'' then (itoa (caller_line E), w)
      else if c = CHR ''m'' then (caller_func E, w)
      else if c = CHR ''t'' then getTimeString E (timeformat log) w
      else if c = CHR ''c'' then (category, w)
      else if c = CHR ''L'' then (level, w)
      else if c = CHR ''%'' then (''%'', w)
      else ([], w))"

text \<open>The inner loop: advance \<open>i\<close> to the next \<^verbatim>\<open>%\<close> or to the end.\<close>

function scan :: "string \<Rightarrow> nat \<Rightarrow> nat" where
  "scan p i = (if i < length p \<and> p ! i \<noteq> CHR ''%'' then scan p (Suc i) else i)"
  by pat_completeness auto
termination
  by (relation "measure (\<lambda>(p, i). length p - i)") auto

declare scan.simps [simp del]

text \<open>
  The outer loop of \<^verbatim>\<open>formatHeader\<close>, on the index \<open>i\<close> and the buffer; the slice
  \<^verbatim>\<open>log.prefix[lasti:i]\<close> is \<open>take (i - lasti) (drop lasti (prefix log))\<close>.
\<close>

function header_loop ::
  "'a env \<Rightarrow> SHLogger \<Rightarrow> string \<Rightarrow> string \<Rightarrow> nat \<Rightarrow> string \<times> world \<Rightarrow> string \<times> world" where
  "header_loop E log category level i (buf, w) =
     (if i < length (prefix log) then
        (let lasti = i;
             j = scan (prefix log) i;
             buf1 = (if j > lasti then buf @ take (j - lasti) (drop lasti (prefix log)) else buf);
             i1 = Suc j
         in if i1 \<ge> length (prefix log) then (buf1, w)
            else (let d = directive E log category level (prefix log ! i1) w
                  in header_loop E log category level (Suc i1) (buf1 @ fst d, snd d)))
      else (buf, w))"
  by pat_completeness auto
termination
proof (relation "measure (\<lambda>(E, log, category, level, i, bw). length (prefix log) - i)")
  show "wf (measure (\<lambda>(E :: 'a env, log, category :: string, level :: string, i :: nat,
                       bw :: string \<times> world). length (prefix log) - i))"
    by simp
next
  fix E :: "'a env" and log :: SHLogger and category level :: string and i :: nat
    and buf :: string and w :: world and x xa xc :: nat and xb :: string
    and xd :: "string \<times> world"
  assume a: "i < length (prefix log)" "xa = scan (prefix log) i" "xc = Suc xa"
    "\<not> length (prefix log) \<le> xc"
  have scan_ge: "k \<le> scan p k" for p k
  proof (induction p k rule: scan.induct)
    case (1 p k)
    show ?case
    proof (cases "k < length p \<and> p ! k \<noteq> CHR ''%''")
      case True
      with 1 have "Suc k \<le> scan p (Suc k)" by simp
      moreover from True have "scan p k = scan p (Suc k)" by (subst scan.simps) simp
      ultimately show ?thesis by simp
    next
      case False
      then have "scan p k = k" by (subst scan.simps) auto
      then show ?thesis by simp
    qed
  qed
  from a scan_ge [of i "prefix log"]
  show "((E, log, category, level, Suc xc, xb @ fst xd, snd xd), E, log, category, level, i, buf, w)
          \<in> measure (\<lambda>(E, log, category, level, i, bw). length (prefix log) - i)"
    by simp
qed

declare header_loop.simps [simp del]

definition formatHeader ::
  "'a env \<Rightarrow> SHLogger \<Rightarrow> string \<Rightarrow> string \<Rightarrow> string \<Rightarrow> world \<Rightarrow> string \<times> world" where
  "formatHeader E log category level buf w =
     header_loop E log category level 0 (buf, w\<lparr>trace := trace w @ [EvCaller]\<rparr>)"

section \<open>Filtering and the write operations\<close>

definition checkPrintable :: "SHLogger \<Rightarrow> string \<Rightarrow> string \<Rightarrow> bool" where
  "checkPrintable log category level =
     (let lv = lookup0 (levelmap log) level
      in case comma_ok (categories log) category of
           Some cl \<Rightarrow> lv \<le> cl
         | None \<Rightarrow> lv \<le> deflevel log)"

text \<open>
  The tail that \<^verbatim>\<open>Printf\<close> and \<^verbatim>\<open>Println\<close> share: \<^verbatim>\<open>log.mutex.Lock()\<close>, the deferred
  \<^verbatim>\<open>Unlock\<close>, and \<^verbatim>\<open>return log.out.Write(buf)\<close>.
\<close>

definition emit ::
  "SHLogger \<Rightarrow> string \<Rightarrow> world \<Rightarrow> ((int \<times> error option) \<times> SHLogger \<times> world) option" where
  "emit log buf w =
     (case Lock log w of
        None \<Rightarrow> None
      | Some (l1, w1) \<Rightarrow>
          (case File_Write (out l1) buf w1 of
             (r, w2) \<Rightarrow> (case Unlock l1 w2 of (l3, w3) \<Rightarrow> Some (r, l3, w3))))"

definition Printf ::
  "'a env \<Rightarrow> SHLogger \<Rightarrow> string \<Rightarrow> string \<Rightarrow> string \<Rightarrow> 'a list \<Rightarrow> world
     \<Rightarrow> ((int \<times> error option) \<times> SHLogger \<times> world) option" where
  "Printf E log category level format a w =
     (if \<not> checkPrintable log category level then Some ((0, None), log, w)
      else (case formatHeader E log category level [] w of
              (buf, w1) \<Rightarrow> emit log (buf @ fmt_Sprintf E format a) w1))"

definition Println ::
  "'a env \<Rightarrow> SHLogger \<Rightarrow> string \<Rightarrow> string \<Rightarrow> 'a list \<Rightarrow> world
     \<Rightarrow> ((int \<times> error option) \<times> SHLogger \<times> world) option" where
  "Println E log category level a w =
     (if \<not> checkPrintable log category level then Some ((0, None), log, w)
      else (case formatHeader E log category level [] w of
              (buf, w1) \<Rightarrow> emit log (buf @ fmt_Sprintln E a) w1))"

definition Sprintf ::
  "'a env \<Rightarrow> SHLogger \<Rightarrow> string \<Rightarrow> string \<Rightarrow> string \<Rightarrow> 'a list \<Rightarrow> world
     \<Rightarrow> string \<times> SHLogger \<times> world" where
  "Sprintf E log category level format a w =
     (if \<not> checkPrintable log category level then ([], log, w)
      else (case formatHeader E log category level [] w of
              (buf, w1) \<Rightarrow> (buf @ fmt_Sprintf E format a, log, w1)))"

definition Sprintln ::
  "'a env \<Rightarrow> SHLogger \<Rightarrow> string \<Rightarrow> string \<Rightarrow> 'a list \<Rightarrow> world
     \<Rightarrow> string \<times> SHLogger \<times> world" where
  "Sprintln E log category level a w =
     (if \<not> checkPrintable log category level then ([], log, w)
      else (case formatHeader E log category level [] w of
              (buf, w1) \<Rightarrow> (buf @ fmt_Sprintln E a, log, w1)))"

text \<open>The error of a write through a nil or a closed file object.\<close>

definition sink_error :: "SHLogger \<Rightarrow> error" where
  "sink_error log = (case out log of None \<Rightarrow> ErrInvalid | Some h \<Rightarrow> ErrClosed)"

section \<open>The header template as the specification words it\<close>

text \<open>
  The specification describes rendering as a left-to-right parse of the template:
  a character other than \<^verbatim>\<open>%\<close> is copied, \<^verbatim>\<open>%\<close> and the next character are replaced
  by the substitution of its table, and a final \<^verbatim>\<open>%\<close> ends the parse. These
  definitions follow that wording, not the code; \<open>k\<close> is the number of clock
  readings made so far.
\<close>

definition after_last_slash :: "string \<Rightarrow> string" where
  "after_last_slash s = rev (takeWhile (\<lambda>c. c \<noteq> CHR ''/'') (rev s))"

definition spec_subst :: "'a env \<Rightarrow> string \<Rightarrow> string \<Rightarrow> string \<Rightarrow> nat \<Rightarrow> char \<Rightarrow> string" where
  "spec_subst E tf category level k d =
     (if d = CHR ''p'' then utoa (caller_pc E)
      else if d = CHR ''F'' then caller_file E
      else if d = CHR ''f'' then after_last_slash (caller_file E)
      else if d = CHR ''l'' then itoa (caller_line E)
      else if d = CHR ''m'' then caller_func E
      else if d = CHR ''t'' then time_Format E k (if tf = [] then RFC3339 else tf)
      else if d = CHR ''c'' then category
      else if d = CHR ''L'' then level
      else if d = CHR ''%'' then [CHR ''%'']
      else [])"

fun spec_render :: "'a env \<Rightarrow> string \<Rightarrow> string \<Rightarrow> string \<Rightarrow> nat \<Rightarrow> string \<Rightarrow> string" where
  "spec_render E tf category level k [] = []"
| "spec_render E tf category level k [x] = (if x = CHR ''%'' then [] else [x])"
| "spec_render E tf category level k (x # y # r) =
     (if x = CHR ''%''
      then spec_subst E tf category level k y
             @ spec_render E tf category level (if y = CHR ''t'' then Suc k else k) r
      else x # spec_render E tf category level k (y # r))"

text \<open>The number of \<^verbatim>\<open>%t\<close> directives of a template, parsed the same way.\<close>

fun clock_reads :: "string \<Rightarrow> nat" where
  "clock_reads [] = 0"
| "clock_reads [x] = 0"
| "clock_reads (x # y # r) =
     (if x = CHR ''%'' then (if y = CHR ''t'' then 1 else 0) + clock_reads r
      else clock_reads (y # r))"

definition advance :: "nat \<Rightarrow> world \<Rightarrow> world" where
  "advance n w = w\<lparr>ticks := ticks w + n, trace := trace w @ replicate n EvNow\<rparr>"

section \<open>A sample logger and environment\<close>

text \<open>
  Concrete values for the instances below: an empty file system, the logger that
  \<^verbatim>\<open>Open("app.log")\<close> returns on it, and a call environment.
\<close>

definition demo_world :: world where
  "demo_world = \<lparr>handles = [], files = Map.empty, unopenable = {}, ticks = 0, trace = []\<rparr>"

definition demo_logger :: SHLogger where
  "demo_logger =
     \<lparr>filename = ''app.log'', mutex = False, prefix = [], timeformat = [], out = Some 0,
      categories = Some Map.empty, levelmap = default_levels, deflevel = 4\<rparr>"

definition demo_env :: "nat env" where
  "demo_env =
     \<lparr>caller_pc = 4198400, caller_file = ''/src/app/main.go'', caller_line = 42,
      caller_func = ''main.main'', time_Format = (\<lambda>k layout. layout),
      fmt_Sprintf = (\<lambda>format a. concat (map utoa a)),
      fmt_Sprintln = (\<lambda>a. concat (map utoa a) @ [CHR 0x0A])\<rparr>"

definition demo_db :: SHLogger where
  "demo_db = demo_logger\<lparr>categories := Some [''db'' \<mapsto> 2]\<rparr>"

definition demo_db_read :: SHLogger where
  "demo_db_read = demo_logger\<lparr>categories := Some [''db.read'' \<mapsto> 7]\<rparr>"

definition demo_quiet :: SHLogger where
  "demo_quiet = SetDefaultLevel (SetLevelMap demo_logger [''QUIET'' \<mapsto> - 1]) ''nosuch''"

definition demo_opened :: world where
  "demo_opened =
     \<lparr>handles = [(''app.log'', True)], files = [''app.log'' \<mapsto> []], unopenable = {},
      ticks = 0, trace = [EvOpenFile ''app.log'']\<rparr>"

definition demo_denied :: world where
  "demo_denied = demo_opened\<lparr>unopenable := {''app.log''}\<rparr>"

section \<open>The short file name\<close>

lemma lastIndexFrom_absent:
  "n \<le> length s \<Longrightarrow> c \<notin> set (take n s) \<Longrightarrow> lastIndexFrom s c n = - 1"
  by (induction n) (auto simp: take_Suc_conv_app_nth)

lemma lastIndexFrom_present:
  "n \<le> length s \<Longrightarrow> c \<in> set (take n s) \<Longrightarrow>
     \<exists>r. lastIndexFrom s c n = int r \<and> r < n \<and> s ! r = c \<and> c \<notin> set (drop (Suc r) (take n s))"
proof (induction n)
  case 0
  then show ?case by simp
next
  case (Suc n)
  then have n: "n < length s" by simp
  show ?case
  proof (cases "s ! n = c")
    case True
    with n show ?thesis by (intro exI [of _ n]) simp
  next
    case False
    with Suc.prems n have "c \<in> set (take n s)"
      by (auto simp: take_Suc_conv_app_nth)
    with Suc.IH n obtain r where r: "lastIndexFrom s c n = int r" "r < n" "s ! r = c"
      "c \<notin> set (drop (Suc r) (take n s))"
      by auto
    with False n have "c \<notin> set (drop (Suc r) (take (Suc n) s))"
      by (auto simp: take_Suc_conv_app_nth)
    with r False show ?thesis
      by (intro exI [of _ r]) simp
  qed
qed

lemma getShortFileName_no_slash:
  "CHR ''/'' \<notin> set s \<Longrightarrow> strings_LastIndex s CHR ''/'' = - 1 \<and> getShortFileName s = s"
  by (simp add: strings_LastIndex_def getShortFileName_def lastIndexFrom_absent)

lemma getShortFileName_slash:
  assumes "CHR ''/'' \<in> set s"
  shows "\<exists>pre. s = pre @ CHR ''/'' # getShortFileName s \<and> CHR ''/'' \<notin> set (getShortFileName s)
           \<and> strings_LastIndex s CHR ''/'' = int (length pre)"
proof -
  from assms lastIndexFrom_present [of "length s" s "CHR ''/''"]
  obtain r where r: "lastIndexFrom s CHR ''/'' (length s) = int r" "r < length s"
    "s ! r = CHR ''/''" "CHR ''/'' \<notin> set (drop (Suc r) s)"
    by auto
  then have g: "getShortFileName s = drop (Suc r) s"
    by (simp add: getShortFileName_def strings_LastIndex_def nat_add_distrib)
  from r have "s = take r s @ CHR ''/'' # drop (Suc r) s"
    by (metis id_take_nth_drop)
  with r g show ?thesis
    by (intro exI [of _ "take r s"]) (simp add: strings_LastIndex_def)
qed

lemma after_last_slash_none: "CHR ''/'' \<notin> set s \<Longrightarrow> after_last_slash s = s"
proof -
  assume "CHR ''/'' \<notin> set s"
  then have "\<forall>x \<in> set (rev s). x \<noteq> CHR ''/''" by auto
  then have "takeWhile (\<lambda>c. c \<noteq> CHR ''/'') (rev s) = rev s"
    by (simp only: takeWhile_eq_all_conv)
  then show ?thesis
    unfolding after_last_slash_def by (simp only: rev_rev_ident)
qed

lemma after_last_slash_split:
  assumes "CHR ''/'' \<notin> set suf"
  shows "after_last_slash (pre @ CHR ''/'' # suf) = suf"
proof -
  have "takeWhile (\<lambda>c. c \<noteq> CHR ''/'') (rev suf @ CHR ''/'' # rev pre)
          = takeWhile (\<lambda>c. c \<noteq> CHR ''/'') (rev suf)"
    by (simp add: takeWhile_tail)
  with after_last_slash_none [OF assms] show ?thesis
    by (simp add: after_last_slash_def)
qed

lemma getShortFileName_spec: "getShortFileName s = after_last_slash s"
proof (cases "CHR ''/'' \<in> set s")
  case True
  then obtain pre where "s = pre @ CHR ''/'' # getShortFileName s"
    "CHR ''/'' \<notin> set (getShortFileName s)"
    using getShortFileName_slash by blast
  then show ?thesis
    by (metis after_last_slash_split)
next
  case False
  then show ?thesis
    by (simp add: getShortFileName_no_slash after_last_slash_none)
qed

section \<open>The header loop computes the specified rendering\<close>

lemma advance_0: "advance 0 w = w"
  by (simp add: advance_def)

lemma spec_render_lit:
  "CHR ''%'' \<noteq> x \<Longrightarrow> spec_render E tf c L k (x # zs) = x # spec_render E tf c L k zs"
  by (cases zs) simp_all

lemma spec_render_run:
  "CHR ''%'' \<notin> set xs \<Longrightarrow> spec_render E tf c L k (xs @ ys) = xs @ spec_render E tf c L k ys"
  by (induction xs) (simp_all add: spec_render_lit)

lemma clock_reads_lit: "CHR ''%'' \<noteq> x \<Longrightarrow> clock_reads (x # zs) = clock_reads zs"
  by (cases zs) simp_all

lemma clock_reads_run: "CHR ''%'' \<notin> set xs \<Longrightarrow> clock_reads (xs @ ys) = clock_reads ys"
  by (induction xs) (simp_all add: clock_reads_lit)

lemma scan_takeWhile:
  "i \<le> length p \<Longrightarrow> scan p i = i + length (takeWhile (\<lambda>c. c \<noteq> CHR ''%'') (drop i p))"
proof (induction p i rule: scan.induct)
  case (1 p i)
  show ?case
  proof (cases "i < length p \<and> p ! i \<noteq> CHR ''%''")
    case True
    then have d: "drop i p = p ! i # drop (Suc i) p"
      by (simp add: Cons_nth_drop_Suc)
    from True have "scan p i = scan p (Suc i)" by (subst scan.simps) simp
    also from True 1 have "\<dots> = Suc i + length (takeWhile (\<lambda>c. c \<noteq> CHR ''%'') (drop (Suc i) p))"
      by simp
    finally show ?thesis using True d by simp
  next
    case False
    then have s: "scan p i = i" by (subst scan.simps) auto
    show ?thesis
    proof (cases "i < length p")
      case True
      with False have "p ! i = CHR ''%''" by simp
      with True have "drop i p = CHR ''%'' # drop (Suc i) p"
        by (metis Cons_nth_drop_Suc)
      with s show ?thesis by simp
    next
      case False
      with s show ?thesis by simp
    qed
  qed
qed


lemma directive_spec:
  "directive E log c L y w =
     (spec_subst E (timeformat log) c L (ticks w) y, advance (if y = CHR ''t'' then 1 else 0) w)"
  by (simp add: directive_def spec_subst_def getTimeString_def advance_def Let_def
      getShortFileName_spec)

lemma advance_advance: "advance m (advance n w) = advance (n + m) w"
  by (simp add: advance_def replicate_add)

lemma header_loop_spec:
  "i \<le> length (prefix log) \<Longrightarrow>
    header_loop E log c L i (buf, w) =
      (buf @ spec_render E (timeformat log) c L (ticks w) (drop i (prefix log)),
       advance (clock_reads (drop i (prefix log))) w)"
proof (induction "length (prefix log) - i" arbitrary: i buf w rule: less_induct)
  case less
  define p where "p = prefix log"
  define xs where "xs = takeWhile (\<lambda>c. c \<noteq> CHR ''%'') (drop i p)"
  define rest where "rest = dropWhile (\<lambda>c. c \<noteq> CHR ''%'') (drop i p)"
  have split: "drop i p = xs @ rest"
    by (simp add: xs_def rest_def)
  have nopct: "CHR ''%'' \<notin> set xs"
    unfolding xs_def by (metis (mono_tags, lifting) set_takeWhileD)
  from less.prems have j: "scan p i = i + length xs"
    by (simp add: p_def xs_def scan_takeWhile)
  have tk: "take (length xs) (drop i p) = xs"
    by (simp add: split)
  have dj: "drop (i + length xs) p = rest"
    by (metis add.commute append_eq_conv_conj drop_drop split)
  have sr: "spec_render E (timeformat log) c L k (drop i p) = xs @ spec_render E (timeformat log) c L k rest" for k
    by (simp add: split spec_render_run nopct)
  have cr: "clock_reads (drop i p) = clock_reads rest"
    by (simp add: split clock_reads_run nopct)
  have b1: "(if i < scan p i then buf @ take (scan p i - i) (drop i p) else buf) = buf @ xs"
    using tk by (cases "xs = []") (simp_all add: j)
  show ?case
  proof (cases "i < length p")
    case False
    with less.prems have "drop i p = []" by (simp add: p_def)
    moreover from False have "header_loop E log c L i (buf, w) = (buf, w)"
      by (subst header_loop.simps) (simp add: p_def)
    ultimately show ?thesis by (simp add: p_def [symmetric] advance_0)
  next
    case True
    have step: "header_loop E log c L i (buf, w) =
      (if length p \<le> Suc (scan p i) then (buf @ xs, w)
       else header_loop E log c L (Suc (Suc (scan p i)))
              ((buf @ xs) @ fst (directive E log c L (p ! Suc (scan p i)) w),
               snd (directive E log c L (p ! Suc (scan p i)) w)))"
      by (subst header_loop.simps) (simp only: Let_def p_def [symmetric] b1 True if_True)
    show ?thesis
    proof (cases rest)
      case Nil
      with dj have "length p \<le> i + length xs"
        by simp
      with step have "header_loop E log c L i (buf, w) = (buf @ xs, w)"
        by (simp add: j)
      with Nil show ?thesis by (simp add: p_def [symmetric] sr cr advance_0)
    next
      case (Cons x r)
      have x: "x = CHR ''%''"
        by (metis (mono_tags, lifting) Cons hd_dropWhile list.distinct(1) list.sel(1) rest_def)
      from Cons dj have lt: "i + length xs < length p"
        by (metis drop_all leI list.distinct(1))
      from Cons dj lt have dr: "drop (Suc (i + length xs)) p = r"
        by (metis Cons_nth_drop_Suc list.inject)
      show ?thesis
      proof (cases r)
        case Nil
        with dr have "length p \<le> Suc (i + length xs)"
          by simp
        with step have "header_loop E log c L i (buf, w) = (buf @ xs, w)"
          by (simp add: j)
        with Nil Cons x show ?thesis by (simp add: p_def [symmetric] sr cr advance_0)
      next
        case (Cons y r')
        with dr have lt2: "Suc (i + length xs) < length p"
          by (metis drop_all leI list.distinct(1))
        with Cons dr have y: "p ! Suc (i + length xs) = y"
          and dr': "drop (Suc (Suc (i + length xs))) p = r'"
          by (metis Cons_nth_drop_Suc list.inject)+
        let ?w = "advance (if y = CHR ''t'' then 1 else 0) w"
        let ?s = "spec_subst E (timeformat log) c L (ticks w) y"
        have tw: "ticks ?w = (if y = CHR ''t'' then Suc (ticks w) else ticks w)"
          by (simp add: advance_def)
        from lt2 step have "header_loop E log c L i (buf, w) =
            header_loop E log c L (Suc (Suc (i + length xs))) ((buf @ xs) @ ?s, ?w)"
          by (simp add: j y directive_spec)
        also have "\<dots> = (((buf @ xs) @ ?s) @ spec_render E (timeformat log) c L (ticks ?w) r',
                          advance (clock_reads r') ?w)"
          using less.hyps [of "Suc (Suc (i + length xs))" "(buf @ xs) @ ?s" ?w] lt2 dr'
          by (simp add: p_def)
        finally show ?thesis
          using Cons \<open>rest = x # r\<close> x
          by (simp add: p_def [symmetric] sr cr tw advance_advance)
      qed
    qed
  qed
qed

lemma formatHeader_spec:
  "formatHeader E log c L buf w =
     (buf @ spec_render E (timeformat log) c L (ticks w) (prefix log),
      advance (clock_reads (prefix log)) (w\<lparr>trace := trace w @ [EvCaller]\<rparr>))"
  using header_loop_spec [of 0 log E c L buf "w\<lparr>trace := trace w @ [EvCaller]\<rparr>"]
  by (simp add: formatHeader_def)

lemma spec_render_no_directive:
  "CHR ''%'' \<notin> set t \<Longrightarrow> spec_render E tf c L k t = t"
  using spec_render_run [of t E tf c L k "[]"] by simp

lemma spec_render_dangling:
  "CHR ''%'' \<notin> set t \<Longrightarrow> spec_render E tf c L k (t @ ''%'') = t"
  using spec_render_run [of t E tf c L k "''%''"] by simp

lemma ticks_advance: "ticks (advance n w) = ticks w + n"
  by (simp add: advance_def)

section \<open>Files, the lock and the write operations\<close>

lemma formatHeader_world:
  "snd (formatHeader E log c L buf w)
     = advance (clock_reads (prefix log)) (w\<lparr>trace := trace w @ [EvCaller]\<rparr>)"
  by (simp add: formatHeader_spec)

lemma formatHeader_frame:
  "handles (snd (formatHeader E log c L buf w)) = handles w"
  "files (snd (formatHeader E log c L buf w)) = files w"
  "unopenable (snd (formatHeader E log c L buf w)) = unopenable w"
  "trace (snd (formatHeader E log c L buf w))
     = trace w @ EvCaller # replicate (clock_reads (prefix log)) EvNow"
  by (simp_all add: formatHeader_world advance_def)

lemma emit_closed:
  assumes "\<not> mutex log" and "\<forall>h. out log = Some h \<longrightarrow> \<not> is_open w h"
  shows "emit log buf w =
           Some ((0, Some (case out log of None \<Rightarrow> ErrInvalid | Some h \<Rightarrow> ErrClosed)), log,
                 w\<lparr>trace := trace w @ [EvLock, EvWrite (out log) buf, EvUnlock]\<rparr>)"
proof (cases "out log")
  case None
  with assms(1) show ?thesis
    by (simp add: emit_def Lock_def Unlock_def File_Write_def)
next
  case (Some h)
  with assms have "\<not> is_open (w\<lparr>trace := trace w @ [EvLock]\<rparr>) h"
    by (simp add: is_open_def)
  with Some assms(1) show ?thesis
    by (simp add: emit_def Lock_def Unlock_def File_Write_def)
qed

lemma emit_open:
  assumes "\<not> mutex log" and "out log = Some h" and "is_open w h"
  shows "emit log buf w =
           Some ((int (length buf), None), log,
                 w\<lparr>trace := trace w @ [EvLock, EvWrite (out log) buf, EvUnlock],
                    files := (files w)(path_of w h \<mapsto>
                       (case files w (path_of w h) of None \<Rightarrow> buf | Some old \<Rightarrow> old @ buf))\<rparr>)"
proof -
  from assms(3) have "is_open (w\<lparr>trace := trace w @ [EvLock]\<rparr>) h"
    by (simp add: is_open_def)
  with assms(1,2) show ?thesis
    by (simp add: emit_def Lock_def Unlock_def File_Write_def path_of_def)
qed


lemma File_Close_frame:
  "trace (snd (File_Close f w)) = trace w @ [EvClose f]"
  "files (snd (File_Close f w)) = files w"
  "unopenable (snd (File_Close f w)) = unopenable w"
  "ticks (snd (File_Close f w)) = ticks w"
  "length (handles (snd (File_Close f w))) = length (handles w)"
  by (simp_all add: File_Close_def Let_def split: option.splits)

lemma File_Close_closes: "\<not> is_open (snd (File_Close (Some h) w)) h"
  by (simp add: File_Close_def Let_def is_open_def)

lemma os_OpenFile_fail:
  "name \<in> unopenable w \<Longrightarrow>
     os_OpenFile name w = (Inl (PathError name), w\<lparr>trace := trace w @ [EvOpenFile name]\<rparr>)"
  by (simp add: os_OpenFile_def)

lemma os_OpenFile_ok:
  "name \<notin> unopenable w \<Longrightarrow>
     os_OpenFile name w =
       (Inr (length (handles w)),
        w\<lparr>trace := trace w @ [EvOpenFile name],
          handles := handles w @ [(name, True)],
          files := (files w)(name \<mapsto> (case files w name of None \<Rightarrow> [] | Some old \<Rightarrow> old))\<rparr>)"
  by (auto simp: os_OpenFile_def Let_def map_upd_triv split: option.splits)

lemma Reopen_unfold:
  assumes "\<not> mutex log"
  shows "Reopen log w =
     (case os_OpenFile (filename log)
             (snd (File_Close (out log) (w\<lparr>trace := trace w @ [EvLock]\<rparr>))) of
        (Inl err, w3) \<Rightarrow> Some (Some err, log, w3\<lparr>trace := trace w3 @ [EvUnlock]\<rparr>)
      | (Inr h, w3) \<Rightarrow> Some (None, log\<lparr>out := Some h\<rparr>, w3\<lparr>trace := trace w3 @ [EvUnlock]\<rparr>))"
proof -
  from assms have m: "log\<lparr>mutex := False\<rparr> = log"
    by simp
  then have m': "log\<lparr>out := f, mutex := False\<rparr> = log\<lparr>out := f\<rparr>" for f
    by (metis SHLogger.update_convs(2) SHLogger.surjective SHLogger.update_convs(5))
  show ?thesis
    by (simp add: Reopen_def Lock_def Unlock_def Close_def assms m m'
        split: prod.splits sum.splits)
qed


lemma Printf_printable:
  "checkPrintable log c L \<Longrightarrow>
     Printf E log c L f a w =
       emit log (fst (formatHeader E log c L [] w) @ fmt_Sprintf E f a)
         (snd (formatHeader E log c L [] w))"
  by (simp add: Printf_def split: prod.splits)

lemma Println_printable:
  "checkPrintable log c L \<Longrightarrow>
     Println E log c L a w =
       emit log (fst (formatHeader E log c L [] w) @ fmt_Sprintln E a)
         (snd (formatHeader E log c L [] w))"
  by (simp add: Println_def split: prod.splits)

lemma Sprintf_printable:
  "checkPrintable log c L \<Longrightarrow>
     Sprintf E log c L f a w =
       (fst (formatHeader E log c L [] w) @ fmt_Sprintf E f a, log,
        snd (formatHeader E log c L [] w))"
  by (simp add: Sprintf_def split: prod.splits)

lemma Sprintln_printable:
  "checkPrintable log c L \<Longrightarrow>
     Sprintln E log c L a w =
       (fst (formatHeader E log c L [] w) @ fmt_Sprintln E a, log,
        snd (formatHeader E log c L [] w))"
  by (simp add: Sprintln_def split: prod.splits)

lemma write_on_closed_sink:
  assumes "\<not> mutex log" and "\<forall>h. out log = Some h \<longrightarrow> \<not> is_open w h"
    and "checkPrintable log c L"
  shows "\<exists>w'. Printf E log c L f a w = Some ((0, Some (sink_error log)), log, w')
           \<and> files w' = files w \<and> handles w' = handles w"
    and "\<exists>w'. Println E log c L a w = Some ((0, Some (sink_error log)), log, w')
           \<and> files w' = files w \<and> handles w' = handles w"
proof -
  let ?w = "snd (formatHeader E log c L [] w)"
  from assms(2) have "\<forall>h. out log = Some h \<longrightarrow> \<not> is_open ?w h"
    by (simp add: is_open_def formatHeader_frame)
  from emit_closed [OF assms(1) this]
  show "\<exists>w'. Printf E log c L f a w = Some ((0, Some (sink_error log)), log, w')
           \<and> files w' = files w \<and> handles w' = handles w"
    and "\<exists>w'. Println E log c L a w = Some ((0, Some (sink_error log)), log, w')
           \<and> files w' = files w \<and> handles w' = handles w"
    by (simp_all add: Printf_printable Println_printable assms(3) sink_error_def
        formatHeader_frame)
qed

lemma write_on_open_sink:
  assumes "\<not> mutex log" and "out log = Some h" and "is_open w h"
    and "checkPrintable log c L"
  shows "\<exists>w'. Printf E log c L f a w
              = Some ((int (length (fst (Sprintf E log c L f a w))), None), log, w')
           \<and> files w' = (files w)(path_of w h \<mapsto>
                 (case files w (path_of w h) of None \<Rightarrow> [] | Some old \<Rightarrow> old)
                   @ fst (Sprintf E log c L f a w))
           \<and> handles w' = handles w"
    and "\<exists>w'. Println E log c L a w
              = Some ((int (length (fst (Sprintln E log c L a w))), None), log, w')
           \<and> files w' = (files w)(path_of w h \<mapsto>
                 (case files w (path_of w h) of None \<Rightarrow> [] | Some old \<Rightarrow> old)
                   @ fst (Sprintln E log c L a w))
           \<and> handles w' = handles w"
proof -
  let ?w = "snd (formatHeader E log c L [] w)"
  from assms(3) have o: "is_open ?w h"
    by (simp add: is_open_def formatHeader_frame)
  have p: "path_of ?w h = path_of w h"
    by (simp add: path_of_def formatHeader_frame)
  have c: "(case files w (path_of w h) of None \<Rightarrow> b | Some old \<Rightarrow> old @ b)
             = (case files w (path_of w h) of None \<Rightarrow> [] | Some old \<Rightarrow> old) @ b" for b
    by (simp split: option.splits)
  note e = emit_open [OF assms(1,2) o]
  show "\<exists>w'. Printf E log c L f a w
              = Some ((int (length (fst (Sprintf E log c L f a w))), None), log, w')
           \<and> files w' = (files w)(path_of w h \<mapsto>
                 (case files w (path_of w h) of None \<Rightarrow> [] | Some old \<Rightarrow> old)
                   @ fst (Sprintf E log c L f a w))
           \<and> handles w' = handles w"
    by (simp add: Printf_printable Sprintf_printable assms(4) e p c formatHeader_frame)
  show "\<exists>w'. Println E log c L a w
              = Some ((int (length (fst (Sprintln E log c L a w))), None), log, w')
           \<and> files w' = (files w)(path_of w h \<mapsto>
                 (case files w (path_of w h) of None \<Rightarrow> [] | Some old \<Rightarrow> old)
                   @ fst (Sprintln E log c L a w))
           \<and> handles w' = handles w"
    by (simp add: Println_printable Sprintln_printable assms(4) e p c formatHeader_frame)
qed


section \<open>Sample values\<close>

lemma Open_demo:
  "Open ''app.log'' demo_world =
     (Inr demo_logger,
      \<lparr>handles = [(''app.log'', True)], files = [''app.log'' \<mapsto> []], unopenable = {},
       ticks = 0, trace = [EvOpenFile ''app.log'']\<rparr>)"
  by (simp add: Open_def os_OpenFile_def demo_world_def demo_logger_def new_SHLogger_def
      SetLevelMap_def SetDefaultLevel_def lookup0_def default_levels_def Let_def)

lemma lookup0_default [simp]:
  "lookup0 default_levels ''OFF'' = 1"
  "lookup0 default_levels ''FATAL'' = 2"
  "lookup0 default_levels ''ERROR'' = 3"
  "lookup0 default_levels ''WARN'' = 4"
  "lookup0 default_levels ''INFO'' = 5"
  "lookup0 default_levels ''DEBUG'' = 6"
  "lookup0 default_levels ''ALL'' = 7"
  by (simp_all add: lookup0_def default_levels_def)

lemma demo_body:
  "fst (Sprintf demo_env (demo_logger\<lparr>out := f\<rparr>) ''app'' ''WARN'' ''%d'' [5] w) = ''5''"
proof -
  have "checkPrintable (demo_logger\<lparr>out := f\<rparr>) ''app'' ''WARN''"
    by (simp add: checkPrintable_def comma_ok_def demo_logger_def)
  then show ?thesis
    by (simp add: Sprintf_printable formatHeader_spec demo_logger_def demo_env_def
        utoa.simps [of 5] digit_def)
qed

section \<open>The filter\<close>

text \<open>
  Claim C1. With an entry \<open>T\<close> for the category in the override map,
  \<open>checkPrintable\<close> holds exactly when the level's severity, resolved in the
  current level table, is at most \<open>T\<close>, and the default threshold has no influence
  on the answer, whatever its value; without an entry it holds exactly when the
  severity is at most the default threshold. After \<open>SetCategory\<close> the answer for
  that category is the comparison with the stored severity, for every default.
\<close>

theorem checkPrintable_threshold:
  "(comma_ok (categories log) category = Some T \<longrightarrow>
      (checkPrintable log category level \<longleftrightarrow> lookup0 (levelmap log) level \<le> T)
      \<and> (\<forall>d. checkPrintable (log\<lparr>deflevel := d\<rparr>) category level
                = checkPrintable log category level))
   \<and> (comma_ok (categories log) category = None \<longrightarrow>
      (checkPrintable log category level \<longleftrightarrow> lookup0 (levelmap log) level \<le> deflevel log))
   \<and> (SetCategory log category name = Inr log' \<longrightarrow>
      (\<forall>d. checkPrintable (log'\<lparr>deflevel := d\<rparr>) category level
             \<longleftrightarrow> lookup0 (levelmap log) level \<le> lookup0 (levelmap log) name))"
  by (auto simp: checkPrintable_def SetCategory_def comma_ok_def Let_def split: option.splits)

theorem checkPrintable_threshold_witness:
  "comma_ok (categories demo_db) ''db'' = Some 2
   \<and> checkPrintable demo_db ''db'' ''FATAL'' \<and> \<not> checkPrintable demo_db ''db'' ''WARN''
   \<and> comma_ok (categories demo_db) ''net'' = None
   \<and> checkPrintable demo_db ''net'' ''WARN'' \<and> \<not> checkPrintable demo_db ''net'' ''INFO''
   \<and> SetCategory demo_logger ''db'' ''FATAL'' = Inr demo_db
   \<and> \<not> checkPrintable (demo_db\<lparr>deflevel := 7\<rparr>) ''db'' ''WARN''"
proof -
  have o: "comma_ok (categories demo_db) ''db'' = Some 2"
    by (simp add: comma_ok_def demo_db_def demo_logger_def)
  have n: "comma_ok (categories demo_db) ''net'' = None"
    by (simp add: comma_ok_def demo_db_def demo_logger_def)
  have s: "SetCategory demo_logger ''db'' ''FATAL'' = Inr demo_db"
    by (simp add: SetCategory_def demo_db_def demo_logger_def)
  have l: "levelmap demo_db = default_levels" "deflevel demo_db = 4"
    "levelmap demo_logger = default_levels"
    by (simp_all add: demo_db_def demo_logger_def)
  show ?thesis
    using o n s
      checkPrintable_threshold [of demo_db "''db''" 2 "''FATAL''" "''FATAL''" demo_logger]
      checkPrintable_threshold [of demo_db "''db''" 2 "''WARN''" "''FATAL''" demo_logger]
      checkPrintable_threshold [of demo_db "''net''" 0 "''WARN''" "''FATAL''" demo_logger]
      checkPrintable_threshold [of demo_db "''net''" 0 "''INFO''" "''FATAL''" demo_logger]
      checkPrintable_threshold [of demo_logger "''db''" 0 "''WARN''" "''FATAL''" demo_db]
    by (simp add: l)
qed

text \<open>
  Claim C4. A level name that is not in the level table resolves to 0, and then
  \<open>checkPrintable\<close> holds whenever the applicable threshold (the category's
  override if there is one, the default threshold otherwise) is positive.
\<close>

theorem unknown_level_passes:
  "levelmap log level = None \<Longrightarrow>
     lookup0 (levelmap log) level = 0
     \<and> (\<forall>T. comma_ok (categories log) category = Some T \<and> 0 < T
            \<longrightarrow> checkPrintable log category level)
     \<and> (comma_ok (categories log) category = None \<and> 0 < deflevel log
            \<longrightarrow> checkPrintable log category level)"
  by (auto simp: checkPrintable_def lookup0_def Let_def)

theorem unknown_level_passes_witness:
  "levelmap demo_db ''TRACE'' = None
   \<and> comma_ok (categories demo_db) ''db'' = Some 2 \<and> checkPrintable demo_db ''db'' ''TRACE''
   \<and> comma_ok (categories demo_db) ''net'' = None \<and> 0 < deflevel demo_db
   \<and> checkPrintable demo_db ''net'' ''TRACE''"
proof -
  have u: "levelmap demo_db ''TRACE'' = None"
    by (simp add: demo_db_def demo_logger_def default_levels_def)
  have o: "comma_ok (categories demo_db) ''db'' = Some 2"
    by (simp add: comma_ok_def demo_db_def demo_logger_def)
  have n: "comma_ok (categories demo_db) ''net'' = None"
    by (simp add: comma_ok_def demo_db_def demo_logger_def)
  have d: "deflevel demo_db = 4"
    by (simp add: demo_db_def demo_logger_def)
  show ?thesis
    using u o n d unknown_level_passes [OF u, of "''db''"] unknown_level_passes [OF u, of "''net''"]
    by simp
qed

text \<open>
  Claim C5. \<open>SetDefaultLevel\<close> stores the severity that the name has in the table
  of that moment; \<open>SetLevelMap\<close> leaves the stored default threshold of any logger
  as it is; so after both the threshold is still the severity under the old table,
  while levels are resolved under the new one.
\<close>

theorem SetDefaultLevel_stores_severity:
  "deflevel (SetDefaultLevel log name) = lookup0 (levelmap log) name
   \<and> deflevel (SetLevelMap log lm) = deflevel log
   \<and> deflevel (SetLevelMap (SetDefaultLevel log name) lm) = lookup0 (levelmap log) name
   \<and> (comma_ok (categories log) category = None \<longrightarrow>
        (checkPrintable (SetLevelMap (SetDefaultLevel log name) lm) category level
           \<longleftrightarrow> lookup0 lm level \<le> lookup0 (levelmap log) name))"
  by (simp add: SetDefaultLevel_def SetLevelMap_def checkPrintable_def Let_def)

theorem SetDefaultLevel_stores_severity_witness:
  "comma_ok (categories demo_logger) ''app'' = None
   \<and> deflevel (SetLevelMap (SetDefaultLevel demo_logger ''WARN'') [''WARN'' \<mapsto> 10]) = 4
   \<and> \<not> checkPrintable (SetLevelMap (SetDefaultLevel demo_logger ''WARN'') [''WARN'' \<mapsto> 10])
          ''app'' ''WARN''"
proof -
  have n: "comma_ok (categories demo_logger) ''app'' = None"
    by (simp add: comma_ok_def demo_logger_def)
  have l: "levelmap demo_logger = default_levels"
    by (simp add: demo_logger_def)
  show ?thesis
    using n SetDefaultLevel_stores_severity
      [of demo_logger "''WARN''" "[''WARN'' \<mapsto> 10]" "''app''" "''WARN''"]
    by (simp add: l lookup0_def default_levels_def)
qed

text \<open>
  Claim C6. \<open>SetCategory\<close> on a logger with a category map succeeds and changes
  the filter's answer for no other category name, at any level: categories are
  exact keys, so neither a prefix nor an extension of the name is affected.
\<close>

theorem SetCategory_exact_match:
  "categories log = Some m \<Longrightarrow>
     \<exists>log'. SetCategory log category name = Inr log'
       \<and> (\<forall>c level. c \<noteq> category \<longrightarrow> checkPrintable log' c level = checkPrintable log c level)"
  by (auto simp: SetCategory_def checkPrintable_def comma_ok_def Let_def split: option.splits)

theorem SetCategory_exact_match_witness:
  "categories demo_logger = Some Map.empty
   \<and> SetCategory demo_logger ''db.read'' ''ALL'' = Inr demo_db_read
   \<and> checkPrintable demo_db_read ''db'' ''DEBUG'' = checkPrintable demo_logger ''db'' ''DEBUG''
   \<and> checkPrintable demo_db_read ''db.readonly'' ''DEBUG''
        = checkPrintable demo_logger ''db.readonly'' ''DEBUG''
   \<and> checkPrintable demo_db_read ''db.read'' ''DEBUG''
   \<and> \<not> checkPrintable demo_logger ''db.read'' ''DEBUG''"
proof -
  have c: "categories demo_logger = Some Map.empty"
    by (simp add: demo_logger_def)
  have s: "SetCategory demo_logger ''db.read'' ''ALL'' = Inr demo_db_read"
    by (simp add: SetCategory_def demo_db_read_def demo_logger_def)
  have p: "checkPrintable demo_db_read ''db.read'' ''DEBUG''"
    "\<not> checkPrintable demo_logger ''db.read'' ''DEBUG''"
    by (simp_all add: checkPrintable_def comma_ok_def demo_db_read_def demo_logger_def)
  from SetCategory_exact_match [OF c, of "''db.read''" "''ALL''"] s
  have "\<forall>c level. c \<noteq> ''db.read'' \<longrightarrow>
          checkPrintable demo_db_read c level = checkPrintable demo_logger c level"
    by simp
  then have "checkPrintable demo_db_read ''db'' ''DEBUG'' = checkPrintable demo_logger ''db'' ''DEBUG''"
    "checkPrintable demo_db_read ''db.readonly'' ''DEBUG''
        = checkPrintable demo_logger ''db.readonly'' ''DEBUG''"
    by simp_all
  with c s p show ?thesis by simp
qed

text \<open>
  Claim C9, as stated, at a level table with a negative severity: the default
  threshold set from an unknown name is 0, and the registered level \<open>QUIET\<close>, whose
  severity is not 0, still passes the filter.
\<close>

theorem unknown_threshold_counterexample:
  "levelmap (SetLevelMap demo_logger [''QUIET'' \<mapsto> - 1]) ''nosuch'' = None
   \<and> deflevel demo_quiet = 0
   \<and> comma_ok (categories demo_quiet) ''app'' = None
   \<and> levelmap demo_quiet ''QUIET'' = Some (- 1)
   \<and> lookup0 (levelmap demo_quiet) ''QUIET'' \<noteq> 0
   \<and> checkPrintable demo_quiet ''app'' ''QUIET''"
  by (simp add: demo_quiet_def demo_logger_def SetLevelMap_def SetDefaultLevel_def lookup0_def
      checkPrintable_def comma_ok_def)

text \<open>
  Claim C9, amended. Setting the default threshold or a category override from a
  name that is not in the level table stores 0; afterwards, in that scope,
  \<open>checkPrintable\<close> holds exactly for the levels whose resolved severity is at most 0,
  so it fails for every level of positive severity.
\<close>

theorem unknown_threshold_passes_nonpositive:
  "levelmap log name = None \<Longrightarrow>
     deflevel (SetDefaultLevel log name) = 0
     \<and> (comma_ok (categories log) category = None \<longrightarrow>
          (checkPrintable (SetDefaultLevel log name) category level
             \<longleftrightarrow> lookup0 (levelmap log) level \<le> 0))
     \<and> (\<forall>m. categories log = Some m \<longrightarrow>
          (\<exists>log'. SetCategory log category name = Inr log'
             \<and> comma_ok (categories log') category = Some 0
             \<and> (checkPrintable log' category level \<longleftrightarrow> lookup0 (levelmap log) level \<le> 0)))"
  by (simp add: SetDefaultLevel_def SetCategory_def checkPrintable_def comma_ok_def lookup0_def
      Let_def)

theorem unknown_threshold_passes_nonpositive_witness:
  "levelmap demo_logger ''nosuch'' = None
   \<and> comma_ok (categories demo_logger) ''app'' = None
   \<and> \<not> checkPrintable (SetDefaultLevel demo_logger ''nosuch'') ''app'' ''FATAL''
   \<and> checkPrintable (SetDefaultLevel demo_logger ''nosuch'') ''app'' ''TRACE''
   \<and> categories demo_logger = Some Map.empty
   \<and> SetCategory demo_logger ''app'' ''nosuch''
        = Inr (demo_logger\<lparr>categories := Some [''app'' \<mapsto> 0]\<rparr>)
   \<and> \<not> checkPrintable (demo_logger\<lparr>categories := Some [''app'' \<mapsto> 0]\<rparr>) ''app'' ''OFF''"
proof -
  have u: "levelmap demo_logger ''nosuch'' = None"
    by (simp add: demo_logger_def default_levels_def)
  have n: "comma_ok (categories demo_logger) ''app'' = None"
    by (simp add: demo_logger_def comma_ok_def)
  have c: "categories demo_logger = Some Map.empty"
    by (simp add: demo_logger_def)
  have s: "SetCategory demo_logger ''app'' ''nosuch''
        = Inr (demo_logger\<lparr>categories := Some [''app'' \<mapsto> 0]\<rparr>)"
    by (simp add: SetCategory_def demo_logger_def lookup0_def default_levels_def)
  have l: "levelmap demo_logger = default_levels"
    by (simp add: demo_logger_def)
  have t: "lookup0 default_levels ''TRACE'' = 0"
    by (simp add: lookup0_def default_levels_def)
  show ?thesis
    using u n c s
      unknown_threshold_passes_nonpositive [OF u, of "''app''" "''FATAL''"]
      unknown_threshold_passes_nonpositive [OF u, of "''app''" "''TRACE''"]
      unknown_threshold_passes_nonpositive [OF u, of "''app''" "''OFF''"]
    by (simp add: l t)
qed

section \<open>Filtered calls\<close>

text \<open>
  Claim C3. When \<open>checkPrintable\<close> fails, each of the four write operations
  returns at once: zero bytes and no error for \<open>Printf\<close> and \<open>Println\<close>, the empty
  string for \<open>Sprintf\<close> and \<open>Sprintln\<close>, with the logger and the environment as
  they were (no caller lookup, no clock reading, no lock, no write in the trace).
\<close>

theorem filtered_call_has_no_effect:
  "\<not> checkPrintable log category level \<Longrightarrow>
     Printf E log category level format a w = Some ((0, None), log, w)
     \<and> Println E log category level a w = Some ((0, None), log, w)
     \<and> Sprintf E log category level format a w = ([], log, w)
     \<and> Sprintln E log category level a w = ([], log, w)"
  by (simp add: Printf_def Println_def Sprintf_def Sprintln_def)

theorem filtered_call_has_no_effect_witness:
  "Open ''app.log'' demo_world = (Inr demo_logger, demo_opened)
   \<and> deflevel demo_logger = lookup0 default_levels ''WARN''
   \<and> \<not> checkPrintable demo_logger ''app'' ''DEBUG''
   \<and> Printf demo_env demo_logger ''app'' ''DEBUG'' ''%d'' [5] demo_opened
        = Some ((0, None), demo_logger, demo_opened)
   \<and> Println demo_env demo_logger ''app'' ''DEBUG'' [5] demo_opened
        = Some ((0, None), demo_logger, demo_opened)
   \<and> Sprintf demo_env demo_logger ''app'' ''DEBUG'' ''%d'' [5] demo_opened
        = ([], demo_logger, demo_opened)
   \<and> Sprintln demo_env demo_logger ''app'' ''DEBUG'' [5] demo_opened
        = ([], demo_logger, demo_opened)"
proof -
  have o: "Open ''app.log'' demo_world = (Inr demo_logger, demo_opened)"
    by (simp add: Open_demo demo_opened_def)
  have d: "deflevel demo_logger = lookup0 default_levels ''WARN''"
    by (simp add: demo_logger_def)
  have f: "\<not> checkPrintable demo_logger ''app'' ''DEBUG''"
    by (simp add: checkPrintable_def comma_ok_def demo_logger_def)
  show ?thesis
    using o d f filtered_call_has_no_effect [OF f, of demo_env "''%d''" "[5]" demo_opened]
    by simp
qed

section \<open>The short file name of the caller\<close>

text \<open>
  Claim C8. On a path without \<^verbatim>\<open>/\<close> the last-index search gives \<open>-1\<close> and
  \<open>getShortFileName\<close> returns the whole path; on a path with \<^verbatim>\<open>/\<close> it returns
  exactly what follows the last \<^verbatim>\<open>/\<close>. The directive \<^verbatim>\<open>%f\<close> renders this string of
  the caller's file.
\<close>

theorem getShortFileName_after_last_slash:
  "(CHR ''/'' \<notin> set s \<longrightarrow> strings_LastIndex s CHR ''/'' = - 1 \<and> getShortFileName s = s)
   \<and> (CHR ''/'' \<in> set s \<longrightarrow>
        (\<exists>pre. s = pre @ CHR ''/'' # getShortFileName s
           \<and> CHR ''/'' \<notin> set (getShortFileName s)
           \<and> strings_LastIndex s CHR ''/'' = int (length pre)))
   \<and> (caller_file E = s \<longrightarrow>
        fst (directive E log category level CHR ''f'' w) = getShortFileName s
        \<and> (prefix log = ''%f'' \<longrightarrow>
             fst (formatHeader E log category level [] w) = getShortFileName s))"
proof (intro conjI impI)
  assume "CHR ''/'' \<notin> set s"
  then show "strings_LastIndex s CHR ''/'' = - 1" "getShortFileName s = s"
    by (simp_all add: getShortFileName_no_slash)
next
  assume "CHR ''/'' \<in> set s"
  then show "\<exists>pre. s = pre @ CHR ''/'' # getShortFileName s
           \<and> CHR ''/'' \<notin> set (getShortFileName s)
           \<and> strings_LastIndex s CHR ''/'' = int (length pre)"
    by (rule getShortFileName_slash)
next
  assume "caller_file E = s"
  then show "fst (directive E log category level CHR ''f'' w) = getShortFileName s"
    by (simp add: directive_def)
next
  assume "caller_file E = s" "prefix log = ''%f''"
  then show "fst (formatHeader E log category level [] w) = getShortFileName s"
    by (simp add: formatHeader_spec spec_subst_def getShortFileName_spec)
qed

theorem getShortFileName_after_last_slash_witness:
  "CHR ''/'' \<notin> set ''main.go'' \<and> getShortFileName ''main.go'' = ''main.go''
   \<and> CHR ''/'' \<in> set ''/src/app/main.go'' \<and> getShortFileName ''/src/app/main.go'' = ''main.go''
   \<and> caller_file demo_env = ''/src/app/main.go''
   \<and> prefix (SetPrefix demo_logger ''%f'') = ''%f''
   \<and> fst (formatHeader demo_env (SetPrefix demo_logger ''%f'') ''app'' ''WARN'' [] demo_opened)
        = ''main.go''"
proof -
  have a: "CHR ''/'' \<notin> set ''main.go''" by simp
  have b: "CHR ''/'' \<in> set ''/src/app/main.go''" by simp
  have c: "caller_file demo_env = ''/src/app/main.go''" by (simp add: demo_env_def)
  have p: "prefix (SetPrefix demo_logger ''%f'') = ''%f''" by (simp add: SetPrefix_def)
  have g: "getShortFileName ''/src/app/main.go'' = ''main.go''"
    by (simp add: getShortFileName_def strings_LastIndex_def)
  show ?thesis
    using a b c p g
      getShortFileName_after_last_slash [of "''main.go''" demo_env demo_logger "''app''" "''WARN''" demo_opened]
      getShortFileName_after_last_slash [of "''/src/app/main.go''" demo_env
        "SetPrefix demo_logger ''%f''" "''app''" "''WARN''" demo_opened]
    by simp
qed

section \<open>Rendering the header\<close>

text \<open>
  Claim C2, as stated, at a template whose directive character is not one byte:
  \<^verbatim>\<open>%\<close> followed by the two bytes \<open>0xC3 0xA9\<close> (the UTF-8 encoding of one
  character outside the table). The loop indexes bytes, so it consumes \<open>0xC3\<close> alone
  and copies \<open>0xA9\<close> to the header: the character is not consumed whole and the
  output is not empty.
\<close>

theorem formatHeader_multibyte_counterexample:
  "prefix (SetPrefix demo_logger [CHR ''%'', CHR 0xC3, CHR 0xA9]) = [CHR ''%'', CHR 0xC3, CHR 0xA9]
   \<and> CHR 0xC3 \<notin> set ''pFflmtcL%''
   \<and> fst (formatHeader demo_env (SetPrefix demo_logger [CHR ''%'', CHR 0xC3, CHR 0xA9])
             ''db'' ''WARN'' [] demo_opened) = [CHR 0xA9]
   \<and> fst (formatHeader demo_env (SetPrefix demo_logger [CHR ''%'', CHR 0xC3, CHR 0xA9])
             ''db'' ''WARN'' [] demo_opened) \<noteq> []"
  by (simp add: SetPrefix_def formatHeader_spec spec_subst_def)

text \<open>
  Claim C2, amended. The header that \<open>formatHeader\<close> appends is the rendering of the
  prefix template read byte by byte: bytes other than \<^verbatim>\<open>%\<close> are copied, \<^verbatim>\<open>%\<close> with the
  next byte is replaced by what the \<^verbatim>\<open>switch\<close> gives for that byte and both are
  consumed, \<^verbatim>\<open>%%\<close> gives one \<^verbatim>\<open>%\<close>, any byte outside the table gives nothing (only
  that one byte is consumed), and a final \<^verbatim>\<open>%\<close> ends the rendering. So a template
  without \<^verbatim>\<open>%\<close> renders as itself, and \<^verbatim>\<open>[%L] %c: \<close> with level \<^verbatim>\<open>WARN\<close> and
  category \<^verbatim>\<open>db\<close> renders as \<^verbatim>\<open>[WARN] db: \<close>.
\<close>

theorem formatHeader_renders_template:
  "fst (formatHeader E log category level buf w)
     = buf @ spec_render E (timeformat log) category level (ticks w) (prefix log)
   \<and> (CHR ''%'' \<notin> set (prefix log) \<longrightarrow>
        fst (formatHeader E log category level [] w) = prefix log)
   \<and> (\<forall>t. CHR ''%'' \<notin> set t \<and> prefix log = t @ ''%'' \<longrightarrow>
        fst (formatHeader E log category level [] w) = t)
   \<and> (\<forall>t d r. CHR ''%'' \<notin> set t \<and> prefix log = t @ CHR ''%'' # d # r \<longrightarrow>
        fst (formatHeader E log category level [] w)
          = t @ fst (directive E log category level d w)
              @ fst (formatHeader E (log\<lparr>prefix := r\<rparr>) category level []
                       (snd (directive E log category level d w))))
   \<and> fst (directive E log category level CHR ''%'' w) = ''%''
   \<and> (\<forall>d. d \<notin> set ''pFflmtcL%'' \<longrightarrow> directive E log category level d w = ([], w))
   \<and> (prefix log = ''[%L] %c: '' \<and> level = ''WARN'' \<and> category = ''db'' \<longrightarrow>
        fst (formatHeader E log category level [] w) = ''[WARN] db: '')"
proof (intro conjI allI impI)
  show "fst (formatHeader E log category level buf w)
     = buf @ spec_render E (timeformat log) category level (ticks w) (prefix log)"
    by (simp add: formatHeader_spec)
next
  assume "CHR ''%'' \<notin> set (prefix log)"
  then show "fst (formatHeader E log category level [] w) = prefix log"
    by (simp add: formatHeader_spec spec_render_no_directive)
next
  fix t
  assume "CHR ''%'' \<notin> set t \<and> prefix log = t @ ''%''"
  then show "fst (formatHeader E log category level [] w) = t"
    by (simp add: formatHeader_spec spec_render_dangling)
next
  fix t d r
  assume a: "CHR ''%'' \<notin> set t \<and> prefix log = t @ CHR ''%'' # d # r"
  have "spec_render E (timeformat log) category level (ticks w) (t @ CHR ''%'' # d # r)
          = t @ spec_subst E (timeformat log) category level (ticks w) d
              @ spec_render E (timeformat log) category level
                  (if d = CHR ''t'' then Suc (ticks w) else ticks w) r"
    using a by (simp add: spec_render_run)
  with a show "fst (formatHeader E log category level [] w)
          = t @ fst (directive E log category level d w)
              @ fst (formatHeader E (log\<lparr>prefix := r\<rparr>) category level []
                       (snd (directive E log category level d w)))"
    by (simp add: formatHeader_spec directive_spec ticks_advance)
next
  show "fst (directive E log category level CHR ''%'' w) = ''%''"
    by (simp add: directive_def)
next
  fix d :: char
  assume "d \<notin> set ''pFflmtcL%''"
  then show "directive E log category level d w = ([], w)"
    by (simp add: directive_def)
next
  assume "prefix log = ''[%L] %c: '' \<and> level = ''WARN'' \<and> category = ''db''"
  then show "fst (formatHeader E log category level [] w) = ''[WARN] db: ''"
    by (simp add: formatHeader_spec spec_subst_def)
qed

theorem formatHeader_renders_template_witness:
  "CHR ''%'' \<notin> set ''plain text''
   \<and> fst (formatHeader demo_env (SetPrefix demo_logger ''plain text'') ''db'' ''WARN'' [] demo_opened)
        = ''plain text''
   \<and> fst (formatHeader demo_env (SetPrefix demo_logger ''abc%'') ''db'' ''WARN'' [] demo_opened)
        = ''abc''
   \<and> fst (formatHeader demo_env (SetPrefix demo_logger ''100%% %x%l'') ''db'' ''WARN'' [] demo_opened)
        = ''100% 42''
   \<and> CHR ''x'' \<notin> set ''pFflmtcL%''
   \<and> directive demo_env demo_logger ''db'' ''WARN'' CHR ''x'' demo_opened = ([], demo_opened)
   \<and> fst (formatHeader demo_env (SetPrefix demo_logger ''[%L] %c: '') ''db'' ''WARN'' [] demo_opened)
        = ''[WARN] db: ''"
proof -
  note T = formatHeader_renders_template
  have p: "prefix (SetPrefix demo_logger t) = t" for t
    by (simp add: SetPrefix_def)
  have n: "CHR ''%'' \<notin> set ''plain text''"
    by simp
  have x: "CHR ''x'' \<notin> set ''pFflmtcL%''"
    by simp
  have l: "itoa (caller_line demo_env) = ''42''"
    by (simp add: demo_env_def itoa_def utoa.simps [of 42] utoa.simps [of 4] digit_def)
  have 1: "fst (formatHeader demo_env (SetPrefix demo_logger ''plain text'') ''db'' ''WARN'' []
             demo_opened) = ''plain text''"
    using T [of demo_env "SetPrefix demo_logger ''plain text''" "''db''" "''WARN''" "[]" demo_opened,
        THEN conjunct2, THEN conjunct1]
    by (simp add: p)
  have 2: "fst (formatHeader demo_env (SetPrefix demo_logger ''abc%'') ''db'' ''WARN'' []
             demo_opened) = ''abc''"
    using T [of demo_env "SetPrefix demo_logger ''abc%''" "''db''" "''WARN''" "[]" demo_opened,
        THEN conjunct2, THEN conjunct2, THEN conjunct1, rule_format, of "''abc''"]
    by (simp add: p)
  have 3: "fst (formatHeader demo_env (SetPrefix demo_logger ''100%% %x%l'') ''db'' ''WARN'' []
             demo_opened) = ''100% 42''"
    using T [of demo_env "SetPrefix demo_logger ''100%% %x%l''" "''db''" "''WARN''" "[]" demo_opened,
        THEN conjunct1]
    by (simp add: p spec_subst_def l)
  have 4: "directive demo_env demo_logger ''db'' ''WARN'' CHR ''x'' demo_opened = ([], demo_opened)"
    using T [of demo_env demo_logger "''db''" "''WARN''" "[]" demo_opened,
        THEN conjunct2, THEN conjunct2, THEN conjunct2, THEN conjunct2, THEN conjunct2,
        THEN conjunct1, rule_format, OF x] .
  have 5: "fst (formatHeader demo_env (SetPrefix demo_logger ''[%L] %c: '') ''db'' ''WARN'' []
             demo_opened) = ''[WARN] db: ''"
    using T [of demo_env "SetPrefix demo_logger ''[%L] %c: ''" "''db''" "''WARN''" "[]" demo_opened,
        THEN conjunct2, THEN conjunct2, THEN conjunct2, THEN conjunct2, THEN conjunct2,
        THEN conjunct2]
    by (simp add: p)
  from n x 1 2 3 4 5 show ?thesis
    by (intro conjI)
qed


section \<open>The string variants and the sink\<close>

text \<open>
  Claim C10. \<open>Sprintf\<close> and \<open>Sprintln\<close> return the logger as it was, leave the
  file objects and the files alone, and add only the caller lookup and clock
  readings to the trace (no lock, no write, no close, no open). The string they
  return does not depend on the logger's file object, on its mutex, or on the
  state of the files; after \<open>Close\<close> they still return the whole header and body.
\<close>

theorem Sprint_leaves_sink_alone:
  "(\<exists>s w'. Sprintf E log category level format a w = (s, log, w')
       \<and> handles w' = handles w \<and> files w' = files w \<and> unopenable w' = unopenable w
       \<and> (\<exists>evs. trace w' = trace w @ evs \<and> set evs \<subseteq> {EvCaller, EvNow}))
   \<and> (\<exists>s w'. Sprintln E log category level a w = (s, log, w')
       \<and> handles w' = handles w \<and> files w' = files w \<and> unopenable w' = unopenable w
       \<and> (\<exists>evs. trace w' = trace w @ evs \<and> set evs \<subseteq> {EvCaller, EvNow}))
   \<and> fst (Sprintf E (log\<lparr>out := f, mutex := b\<rparr>) category level format a
             (w\<lparr>handles := hs, files := fs\<rparr>))
        = fst (Sprintf E log category level format a w)
   \<and> fst (Sprintln E (log\<lparr>out := f, mutex := b\<rparr>) category level a
             (w\<lparr>handles := hs, files := fs\<rparr>))
        = fst (Sprintln E log category level a w)
   \<and> (\<forall>log' w'. Close log w = (log', w') \<and> checkPrintable log category level \<longrightarrow>
          fst (Sprintf E log' category level format a w')
            = spec_render E (timeformat log) category level (ticks w) (prefix log)
                @ fmt_Sprintf E format a
        \<and> fst (Sprintln E log' category level a w')
            = spec_render E (timeformat log) category level (ticks w) (prefix log)
                @ fmt_Sprintln E a)"
proof (intro conjI allI impI)
  show "\<exists>s w'. Sprintf E log category level format a w = (s, log, w')
       \<and> handles w' = handles w \<and> files w' = files w \<and> unopenable w' = unopenable w
       \<and> (\<exists>evs. trace w' = trace w @ evs \<and> set evs \<subseteq> {EvCaller, EvNow})"
  proof (cases "checkPrintable log category level")
    case True
    then show ?thesis
      by (auto simp: Sprintf_printable formatHeader_frame)
  next
    case False
    then show ?thesis
      by (simp add: Sprintf_def)
  qed
next
  show "\<exists>s w'. Sprintln E log category level a w = (s, log, w')
       \<and> handles w' = handles w \<and> files w' = files w \<and> unopenable w' = unopenable w
       \<and> (\<exists>evs. trace w' = trace w @ evs \<and> set evs \<subseteq> {EvCaller, EvNow})"
  proof (cases "checkPrintable log category level")
    case True
    then show ?thesis
      by (auto simp: Sprintln_printable formatHeader_frame)
  next
    case False
    then show ?thesis
      by (simp add: Sprintln_def)
  qed
next
  have cp: "checkPrintable (log\<lparr>out := f, mutex := b\<rparr>) category level
              = checkPrintable log category level"
    by (simp add: checkPrintable_def Let_def split: option.splits)
  show "fst (Sprintf E (log\<lparr>out := f, mutex := b\<rparr>) category level format a
             (w\<lparr>handles := hs, files := fs\<rparr>))
        = fst (Sprintf E log category level format a w)"
    by (cases "checkPrintable log category level")
      (simp_all add: cp Sprintf_printable Sprintf_def formatHeader_spec)
  show "fst (Sprintln E (log\<lparr>out := f, mutex := b\<rparr>) category level a
             (w\<lparr>handles := hs, files := fs\<rparr>))
        = fst (Sprintln E log category level a w)"
    by (cases "checkPrintable log category level")
      (simp_all add: cp Sprintln_printable Sprintln_def formatHeader_spec)
next
  fix log' w'
  assume a: "Close log w = (log', w') \<and> checkPrintable log category level"
  then have l: "log' = log" and w: "ticks w' = ticks w"
    by (auto simp: Close_def File_Close_frame)
  with a show "fst (Sprintf E log' category level format a w')
            = spec_render E (timeformat log) category level (ticks w) (prefix log)
                @ fmt_Sprintf E format a"
    by (simp add: Sprintf_printable formatHeader_spec)
  from a l w show "fst (Sprintln E log' category level a w')
            = spec_render E (timeformat log) category level (ticks w) (prefix log)
                @ fmt_Sprintln E a"
    by (simp add: Sprintln_printable formatHeader_spec)
qed


theorem Sprint_leaves_sink_alone_witness:
  "checkPrintable (SetPrefix demo_logger ''[%L] %c: '') ''db'' ''WARN''
   \<and> \<not> is_open (snd (Close (SetPrefix demo_logger ''[%L] %c: '') demo_opened)) 0
   \<and> fst (Sprintf demo_env (fst (Close (SetPrefix demo_logger ''[%L] %c: '') demo_opened))
             ''db'' ''WARN'' ''%d'' [5]
             (snd (Close (SetPrefix demo_logger ''[%L] %c: '') demo_opened)))
        = ''[WARN] db: 5''
   \<and> fst (Sprintln demo_env (fst (Close (SetPrefix demo_logger ''[%L] %c: '') demo_opened))
             ''db'' ''WARN'' [5]
             (snd (Close (SetPrefix demo_logger ''[%L] %c: '') demo_opened)))
        = ''[WARN] db: 5'' @ [CHR 0x0A]"
proof -
  let ?L = "SetPrefix demo_logger ''[%L] %c: ''"
  have p: "checkPrintable ?L ''db'' ''WARN''"
    by (simp add: checkPrintable_def comma_ok_def demo_logger_def SetPrefix_def)
  have c: "\<not> is_open (snd (Close ?L demo_opened)) 0"
    by (simp add: Close_def SetPrefix_def demo_logger_def File_Close_closes)
  have k: "Close ?L demo_opened = (fst (Close ?L demo_opened), snd (Close ?L demo_opened))
             \<and> checkPrintable ?L ''db'' ''WARN''"
    using p by simp
  have r: "spec_render demo_env (timeformat ?L) ''db'' ''WARN'' (ticks demo_opened) (prefix ?L)
             = ''[WARN] db: ''"
    by (simp add: SetPrefix_def spec_subst_def)
  have b: "fmt_Sprintf demo_env ''%d'' [5] = ''5''" "fmt_Sprintln demo_env [5] = ''5'' @ [CHR 0x0A]"
    by (simp_all add: demo_env_def utoa.simps [of 5] digit_def)
  from Sprint_leaves_sink_alone [of demo_env ?L "''db''" "''WARN''" "''%d''" "[5]" demo_opened,
      THEN conjunct2, THEN conjunct2, THEN conjunct2, THEN conjunct2, rule_format, OF k]
  have "fst (Sprintf demo_env (fst (Close ?L demo_opened)) ''db'' ''WARN'' ''%d'' [5]
             (snd (Close ?L demo_opened))) = ''[WARN] db: 5''"
    and "fst (Sprintln demo_env (fst (Close ?L demo_opened)) ''db'' ''WARN'' [5]
             (snd (Close ?L demo_opened))) = ''[WARN] db: 5'' @ [CHR 0x0A]"
    unfolding r b by simp_all
  with p c show ?thesis
    by (intro conjI)
qed

section \<open>Reopening\<close>

text \<open>
  Claim C7. With the lock free, \<open>Reopen\<close> locks, closes the current file object,
  opens the logger's path and unlocks, in this order. When the opening fails it
  returns that error, the logger keeps its old, closed file object, and every later
  \<open>Printf\<close> or \<open>Println\<close> that passes the filter returns an error and adds nothing
  to any file. When the opening succeeds the logger holds the new, open file
  object on the same path, and such a write appends its header and body to the file
  at that path.
\<close>

theorem Reopen_swaps_or_breaks_sink:
  "\<not> mutex log \<Longrightarrow>
   (filename log \<in> unopenable w \<longrightarrow>
      (\<exists>w'. Reopen log w = Some (Some (PathError (filename log)), log, w')
         \<and> trace w' = trace w @ [EvLock, EvClose (out log), EvOpenFile (filename log), EvUnlock]
         \<and> files w' = files w
         \<and> (\<forall>h. out log = Some h \<longrightarrow> \<not> is_open w' h)
         \<and> (\<forall>category level format a. checkPrintable log category level \<longrightarrow>
              (\<exists>w''. Printf E log category level format a w'
                        = Some ((0, Some (sink_error log)), log, w'')
                    \<and> files w'' = files w)
              \<and> (\<exists>w''. Println E log category level a w'
                        = Some ((0, Some (sink_error log)), log, w'')
                    \<and> files w'' = files w))))
   \<and> (filename log \<notin> unopenable w \<longrightarrow>
      (\<exists>w' log'. Reopen log w = Some (None, log', w')
         \<and> log' = log\<lparr>out := Some (length (handles w))\<rparr>
         \<and> trace w' = trace w @ [EvLock, EvClose (out log), EvOpenFile (filename log), EvUnlock]
         \<and> is_open w' (length (handles w))
         \<and> path_of w' (length (handles w)) = filename log
         \<and> (\<forall>h. out log = Some h \<and> h < length (handles w) \<longrightarrow> \<not> is_open w' h)
         \<and> (\<forall>category level format a. checkPrintable log category level \<longrightarrow>
              (\<exists>w''. Printf E log' category level format a w'
                        = Some ((int (length (fst (Sprintf E log' category level format a w'))),
                                 None), log', w'')
                    \<and> files w'' = (files w)(filename log \<mapsto>
                          (case files w (filename log) of None \<Rightarrow> [] | Some old \<Rightarrow> old)
                            @ fst (Sprintf E log' category level format a w')))
              \<and> (\<exists>w''. Println E log' category level a w'
                        = Some ((int (length (fst (Sprintln E log' category level a w'))),
                                 None), log', w'')
                    \<and> files w'' = (files w)(filename log \<mapsto>
                          (case files w (filename log) of None \<Rightarrow> [] | Some old \<Rightarrow> old)
                            @ fst (Sprintln E log' category level a w'))))))"
proof (intro conjI impI)
  assume m: "\<not> mutex log"
  define w2 where "w2 = snd (File_Close (out log) (w\<lparr>trace := trace w @ [EvLock]\<rparr>))"
  have w2: "trace w2 = trace w @ [EvLock, EvClose (out log)]" "files w2 = files w"
    "unopenable w2 = unopenable w" "length (handles w2) = length (handles w)"
    by (simp_all add: w2_def File_Close_frame)
  have closed2: "\<not> is_open w2 h" if "out log = Some h" for h
    using that File_Close_closes [of h "w\<lparr>trace := trace w @ [EvLock]\<rparr>"]
    by (simp add: w2_def)
  {
    assume u: "filename log \<in> unopenable w"
    define w' where "w' = w2\<lparr>trace := trace w @ [EvLock, EvClose (out log),
                                   EvOpenFile (filename log), EvUnlock]\<rparr>"
    have r: "Reopen log w = Some (Some (PathError (filename log)), log, w')"
      using u by (simp add: Reopen_unfold [OF m] w2_def [symmetric] os_OpenFile_fail w2 w'_def)
    have c: "\<forall>h. out log = Some h \<longrightarrow> \<not> is_open w' h"
      using closed2 by (simp add: w'_def is_open_def)
    have f: "files w' = files w"
      by (simp add: w'_def w2)
    have "\<forall>category level format a. checkPrintable log category level \<longrightarrow>
              (\<exists>w''. Printf E log category level format a w'
                        = Some ((0, Some (sink_error log)), log, w'')
                    \<and> files w'' = files w)
              \<and> (\<exists>w''. Println E log category level a w'
                        = Some ((0, Some (sink_error log)), log, w'')
                    \<and> files w'' = files w)"
      using write_on_closed_sink [OF m c, of _ _ E] f by metis
    with r c f
    show "\<exists>w'. Reopen log w = Some (Some (PathError (filename log)), log, w')
         \<and> trace w' = trace w @ [EvLock, EvClose (out log), EvOpenFile (filename log), EvUnlock]
         \<and> files w' = files w
         \<and> (\<forall>h. out log = Some h \<longrightarrow> \<not> is_open w' h)
         \<and> (\<forall>category level format a. checkPrintable log category level \<longrightarrow>
              (\<exists>w''. Printf E log category level format a w'
                        = Some ((0, Some (sink_error log)), log, w'')
                    \<and> files w'' = files w)
              \<and> (\<exists>w''. Println E log category level a w'
                        = Some ((0, Some (sink_error log)), log, w'')
                    \<and> files w'' = files w))"
      by (intro exI [of _ w']) (simp add: w'_def)
  }
  {
    assume u: "filename log \<notin> unopenable w"
    define n where "n = length (handles w)"
    define log' where "log' = log\<lparr>out := Some n\<rparr>"
    define old where "old = (case files w (filename log) of None \<Rightarrow> [] | Some old \<Rightarrow> old)"
    define w' where "w' = w2\<lparr>trace := trace w @ [EvLock, EvClose (out log),
                                   EvOpenFile (filename log), EvUnlock],
                          handles := handles w2 @ [(filename log, True)],
                          files := (files w)(filename log \<mapsto> old)\<rparr>"
    have r: "Reopen log w = Some (None, log', w')"
      using u
      by (simp add: Reopen_unfold [OF m] w2_def [symmetric] os_OpenFile_ok w2 w'_def log'_def
          n_def old_def)
    have o: "is_open w' n" and p: "path_of w' n = filename log"
      by (simp_all add: w'_def is_open_def path_of_def n_def w2 [symmetric] nth_append)
    have c: "\<forall>h. out log = Some h \<and> h < n \<longrightarrow> \<not> is_open w' h"
      using closed2 by (auto simp: w'_def is_open_def n_def w2 [symmetric] nth_append)
    have m': "\<not> mutex log'" and o': "out log' = Some n"
      using m by (simp_all add: log'_def)
    have cp: "checkPrintable log' category level = checkPrintable log category level"
      for category level
      by (simp add: checkPrintable_def log'_def Let_def split: option.splits)
    have fo: "(case files w' (filename log) of None \<Rightarrow> [] | Some x \<Rightarrow> x) = old"
      by (simp add: w'_def)
    have fu: "(files w')(filename log \<mapsto> x) = (files w)(filename log \<mapsto> x)" for x
      by (simp add: w'_def)
    have "\<forall>category level format a. checkPrintable log category level \<longrightarrow>
              (\<exists>w''. Printf E log' category level format a w'
                        = Some ((int (length (fst (Sprintf E log' category level format a w'))),
                                 None), log', w'')
                    \<and> files w'' = (files w)(filename log \<mapsto>
                          old @ fst (Sprintf E log' category level format a w')))
              \<and> (\<exists>w''. Println E log' category level a w'
                        = Some ((int (length (fst (Sprintln E log' category level a w'))),
                                 None), log', w'')
                    \<and> files w'' = (files w)(filename log \<mapsto>
                          old @ fst (Sprintln E log' category level a w')))"
    proof (intro allI impI)
      fix category level format a
      assume "checkPrintable log category level"
      then have "checkPrintable log' category level"
        by (simp add: cp)
      from write_on_open_sink [OF m' o' o this, of E]
      show "(\<exists>w''. Printf E log' category level format a w'
                        = Some ((int (length (fst (Sprintf E log' category level format a w'))),
                                 None), log', w'')
                    \<and> files w'' = (files w)(filename log \<mapsto>
                          old @ fst (Sprintf E log' category level format a w')))
              \<and> (\<exists>w''. Println E log' category level a w'
                        = Some ((int (length (fst (Sprintln E log' category level a w'))),
                                 None), log', w'')
                    \<and> files w'' = (files w)(filename log \<mapsto>
                          old @ fst (Sprintln E log' category level a w')))"
        unfolding p fo fu by blast
    qed
    with r o p c
    show "\<exists>w' log'. Reopen log w = Some (None, log', w')
         \<and> log' = log\<lparr>out := Some (length (handles w))\<rparr>
         \<and> trace w' = trace w @ [EvLock, EvClose (out log), EvOpenFile (filename log), EvUnlock]
         \<and> is_open w' (length (handles w))
         \<and> path_of w' (length (handles w)) = filename log
         \<and> (\<forall>h. out log = Some h \<and> h < length (handles w) \<longrightarrow> \<not> is_open w' h)
         \<and> (\<forall>category level format a. checkPrintable log category level \<longrightarrow>
              (\<exists>w''. Printf E log' category level format a w'
                        = Some ((int (length (fst (Sprintf E log' category level format a w'))),
                                 None), log', w'')
                    \<and> files w'' = (files w)(filename log \<mapsto>
                          (case files w (filename log) of None \<Rightarrow> [] | Some old \<Rightarrow> old)
                            @ fst (Sprintf E log' category level format a w')))
              \<and> (\<exists>w''. Println E log' category level a w'
                        = Some ((int (length (fst (Sprintln E log' category level a w'))),
                                 None), log', w'')
                    \<and> files w'' = (files w)(filename log \<mapsto>
                          (case files w (filename log) of None \<Rightarrow> [] | Some old \<Rightarrow> old)
                            @ fst (Sprintln E log' category level a w'))))"
      unfolding old_def [symmetric] n_def [symmetric]
      by (intro exI [of _ w'] exI [of _ log']) (simp add: w'_def log'_def)
  }
qed


theorem Reopen_swaps_or_breaks_sink_witness:
  "\<not> mutex demo_logger
   \<and> filename demo_logger \<in> unopenable demo_denied
   \<and> filename demo_logger \<notin> unopenable demo_opened
   \<and> checkPrintable demo_logger ''app'' ''WARN''
   \<and> (\<exists>w'. Reopen demo_logger demo_denied = Some (Some (PathError ''app.log''), demo_logger, w')
          \<and> (\<exists>w''. Printf demo_env demo_logger ''app'' ''WARN'' ''%d'' [5] w'
                       = Some ((0, Some ErrClosed), demo_logger, w'')
                   \<and> files w'' ''app.log'' = Some []))
   \<and> (\<exists>w'. Reopen demo_logger demo_opened = Some (None, demo_logger\<lparr>out := Some 1\<rparr>, w')
          \<and> (\<exists>w''. Printf demo_env (demo_logger\<lparr>out := Some 1\<rparr>) ''app'' ''WARN'' ''%d'' [5] w'
                       = Some ((1, None), demo_logger\<lparr>out := Some 1\<rparr>, w'')
                   \<and> files w'' ''app.log'' = Some ''5''))"
proof -
  have m: "\<not> mutex demo_logger"
    by (simp add: demo_logger_def)
  have d: "filename demo_logger \<in> unopenable demo_denied"
    by (simp add: demo_logger_def demo_denied_def)
  have o: "filename demo_logger \<notin> unopenable demo_opened"
    by (simp add: demo_logger_def demo_opened_def)
  have p: "checkPrintable demo_logger ''app'' ''WARN''"
    by (simp add: checkPrintable_def comma_ok_def demo_logger_def)
  have e: "sink_error demo_logger = ErrClosed"
    by (simp add: sink_error_def demo_logger_def)
  have f: "filename demo_logger = ''app.log''" "files demo_denied ''app.log'' = Some []"
    "files demo_opened ''app.log'' = Some []" "length (handles demo_opened) = 1"
    by (simp_all add: demo_logger_def demo_denied_def demo_opened_def)
  note T = Reopen_swaps_or_breaks_sink [OF m, of _ demo_env]
  from T [of demo_denied, THEN conjunct1, rule_format, OF d] p
  have 1: "\<exists>w'. Reopen demo_logger demo_denied = Some (Some (PathError ''app.log''), demo_logger, w')
          \<and> (\<exists>w''. Printf demo_env demo_logger ''app'' ''WARN'' ''%d'' [5] w'
                       = Some ((0, Some ErrClosed), demo_logger, w'')
                   \<and> files w'' ''app.log'' = Some [])"
    unfolding e f by (metis f(2))
  from T [of demo_opened, THEN conjunct2, rule_format, OF o]
  obtain w' where r: "Reopen demo_logger demo_opened = Some (None, demo_logger\<lparr>out := Some 1\<rparr>, w')"
    and w: "\<forall>category level format a. checkPrintable demo_logger category level \<longrightarrow>
              (\<exists>w''. Printf demo_env (demo_logger\<lparr>out := Some 1\<rparr>) category level format a w'
                 = Some ((int (length (fst (Sprintf demo_env (demo_logger\<lparr>out := Some 1\<rparr>)
                                              category level format a w'))), None),
                         demo_logger\<lparr>out := Some 1\<rparr>, w'')
                 \<and> files w'' = (files demo_opened)(''app.log'' \<mapsto>
                       (case files demo_opened ''app.log'' of None \<Rightarrow> [] | Some old \<Rightarrow> old)
                         @ fst (Sprintf demo_env (demo_logger\<lparr>out := Some 1\<rparr>)
                                  category level format a w')))"
    unfolding f by auto
  from w [rule_format, OF p, of "''%d''" "[5]"]
  have "\<exists>w''. Printf demo_env (demo_logger\<lparr>out := Some 1\<rparr>) ''app'' ''WARN'' ''%d'' [5] w'
                       = Some ((1, None), demo_logger\<lparr>out := Some 1\<rparr>, w'')
                   \<and> files w'' ''app.log'' = Some ''5''"
    by (auto simp: demo_body f)
  with r have 2: "\<exists>w'. Reopen demo_logger demo_opened = Some (None, demo_logger\<lparr>out := Some 1\<rparr>, w')
          \<and> (\<exists>w''. Printf demo_env (demo_logger\<lparr>out := Some 1\<rparr>) ''app'' ''WARN'' ''%d'' [5] w'
                       = Some ((1, None), demo_logger\<lparr>out := Some 1\<rparr>, w'')
                   \<and> files w'' ''app.log'' = Some ''5'')"
    by blast
  from m d o p 1 2 show ?thesis
    by (intro conjI)
qed


end
